theory Spec2Isabelle
  imports Complex_Main
begin

section \<open>The PageRank notebook: score table, inline max scan and threshold report\<close>

text \<open>
  The notebook \<open>cugraph/link_analysis/Pagerank.ipynb\<close> calls two library routines
  (\<open>nx.pagerank\<close>, \<open>cugraph.pagerank\<close>) and then inspects the returned score table with
  a few lines of its own: a manual loop that finds the best vertex, the column maximum
  \<open>pr_max\<close>, the function \<open>print_pagerank_threshold\<close> and the sorted table
  \<open>sort_pr\<close>. Those lines are embedded here.

  A score is a float that is never NaN; on such values the comparisons \<open>>\<close> and
  \<open>>=\<close> of the notebook are the order of the reals, so a score is a \<open>real\<close>.
  A vertex identifier is an integer on which no arithmetic is done.
\<close>

subsection \<open>Data model\<close>

text \<open>One row of the data frame returned by \<open>cugraph.pagerank\<close>: the columns
  \<open>df['vertex']\<close> and \<open>df['pagerank']\<close>.\<close>

record row =
  vertex :: int
  pagerank :: real

type_synonym dataframe = "row list"

datatype error = IndexError

text \<open>\<open>df[c]\<close> is a column; \<open>df[c][i]\<close> reads it by position and raises out of range.\<close>

definition col :: "(row \<Rightarrow> 'a) \<Rightarrow> dataframe \<Rightarrow> 'a list" where
  "col c df = map c df"

definition getitem :: "'a list \<Rightarrow> nat \<Rightarrow> error + 'a" where
  "getitem xs i = (if i < length xs then Inr (xs ! i) else Inl IndexError)"

subsection \<open>The inline max scan\<close>

text \<open>
  \<^verbatim>\<open>
  bestScore = gdf_page['pagerank'][0]
  bestVert = gdf_page['vertex'][0]
  for i in range(len(gdf_page)):
      if gdf_page['pagerank'][i] > bestScore:
          bestScore = gdf_page['pagerank'][i]
          bestVert = gdf_page['vertex'][i]
  \<close>
\<close>

record best =
  bestScore :: real
  bestVert :: int

definition scan_body :: "dataframe \<Rightarrow> nat \<Rightarrow> best \<Rightarrow> error + best" where
  "scan_body df i b =
     (case getitem (col pagerank df) i of
        Inl e \<Rightarrow> Inl e
      | Inr s \<Rightarrow>
          if s > bestScore b then
            (case getitem (col pagerank df) i of
               Inl e \<Rightarrow> Inl e
             | Inr s' \<Rightarrow>
                 (case getitem (col vertex df) i of
                    Inl e \<Rightarrow> Inl e
                  | Inr v \<Rightarrow> Inr \<lparr>bestScore = s', bestVert = v\<rparr>))
          else Inr b)"

fun scan_loop :: "dataframe \<Rightarrow> nat list \<Rightarrow> best \<Rightarrow> error + best" where
  "scan_loop df [] b = Inr b"
| "scan_loop df (i # is) b =
     (case scan_body df i b of Inl e \<Rightarrow> Inl e | Inr b' \<Rightarrow> scan_loop df is b')"

definition inline_max_scan :: "dataframe \<Rightarrow> error + best" where
  "inline_max_scan df =
     (case getitem (col pagerank df) 0 of
        Inl e \<Rightarrow> Inl e
      | Inr s0 \<Rightarrow>
          (case getitem (col vertex df) 0 of
             Inl e \<Rightarrow> Inl e
           | Inr v0 \<Rightarrow> scan_loop df [0..<length df] \<lparr>bestScore = s0, bestVert = v0\<rparr>))"

subsection \<open>The declarative pipeline\<close>

text \<open>\<open>pr_max = gdf_page['pagerank'].max()\<close>: the maximum of the score column (no
  value is modelled for an empty column).\<close>

definition series_max :: "real list \<Rightarrow> real option" where
  "series_max xs = (if xs = [] then None else Some (Max (set xs)))"

definition pr_max :: "dataframe \<Rightarrow> real option" where
  "pr_max df = series_max (col pagerank df)"

text \<open>\<open>sort_pr = gdf_page.sort_values('pagerank', ascending=False)\<close>: the rows by
  descending score. Rows of equal score keep their order here; the library does not
  promise an order among them, and nothing below depends on it.\<close>

definition sort_pr :: "dataframe \<Rightarrow> dataframe" where
  "sort_pr df = sort_key (\<lambda>r. - pagerank r) df"

subsection \<open>The threshold report\<close>

text \<open>
  \<^verbatim>\<open>
  def print_pagerank_threshold(_df, t=0) :
      filtered = _df.query('pagerank >= @t')
      for i in range(len(filtered)):
          print("Best vertex is " + str(filtered['vertex'][i]) +
              " with score of " + str(filtered['pagerank'][i]))
  \<close>
  The query keeps the rows that satisfy it, in their order. Each turn of the loop reads
  one (vertex, score) entry by position in the filtered frame and prints one line for it
  (in the recorded run \<open>print_pagerank_threshold(gdf_page, pr_max)\<close> prints the row of
  vertex 34 at \<open>i = 0\<close>); \<open>reporter_entries\<close> is the sequence of entries read,
  \<open>print_pagerank_threshold\<close> the lines printed. The default \<open>t=0\<close> is the call with
  threshold 0. The text of a float, \<open>str(score)\<close>, is a parameter.
\<close>

type_synonym entry = "int \<times> real"

definition query_ge :: "dataframe \<Rightarrow> real \<Rightarrow> dataframe" where
  "query_ge df t = filter (\<lambda>r. pagerank r \<ge> t) df"

fun report_loop :: "dataframe \<Rightarrow> nat list \<Rightarrow> entry list \<Rightarrow> error + entry list" where
  "report_loop f [] out = Inr out"
| "report_loop f (i # is) out =
     (case getitem (col vertex f) i of
        Inl e \<Rightarrow> Inl e
      | Inr v \<Rightarrow>
          (case getitem (col pagerank f) i of
             Inl e \<Rightarrow> Inl e
           | Inr s \<Rightarrow> report_loop f is (out @ [(v, s)])))"

definition reporter_entries :: "dataframe \<Rightarrow> real \<Rightarrow> error + entry list" where
  "reporter_entries df t =
     (let filtered = query_ge df t in report_loop filtered [0..<length filtered] [])"

text \<open>\<open>str\<close> of an integer: a minus sign for a negative number, then the decimal digits.\<close>

fun digits :: "nat \<Rightarrow> string" where
  "digits n = (if n < 10 then [''0123456789'' ! n]
               else digits (n div 10) @ [''0123456789'' ! (n mod 10)])"

declare digits.simps [simp del]

definition str_int :: "int \<Rightarrow> string" where
  "str_int i = (if i < 0 then CHR ''-'' # digits (nat (- i)) else digits (nat i))"

definition best_line :: "(real \<Rightarrow> string) \<Rightarrow> entry \<Rightarrow> string" where
  "best_line str_score e =
     ''Best vertex is '' @ str_int (fst e) @ '' with score of '' @ str_score (snd e)"

definition print_pagerank_threshold ::
  "(real \<Rightarrow> string) \<Rightarrow> dataframe \<Rightarrow> real \<Rightarrow> error + string list" where
  "print_pagerank_threshold str_score df t =
     (case reporter_entries df t of
        Inl e \<Rightarrow> Inl e
      | Inr es \<Rightarrow> Inr (map (best_line str_score) es))"

subsection \<open>Orders on a sequence of entries\<close>

text \<open>Entry \<open>a\<close> may stand before entry \<open>b\<close> in a report by descending score with ties
  by ascending vertex identifier.\<close>

definition precedes :: "entry \<Rightarrow> entry \<Rightarrow> bool" where
  "precedes a b = (snd b < snd a \<or> (snd a = snd b \<and> fst a \<le> fst b))"

definition report_order :: "entry list \<Rightarrow> bool" where
  "report_order es = sorted_wrt precedes es"

text \<open>Of any two adjacent entries the earlier has a score at least the later's.\<close>

fun adjacent_scores_descend :: "entry list \<Rightarrow> bool" where
  "adjacent_scores_descend (a # b # es) = (snd a \<ge> snd b \<and> adjacent_scores_descend (b # es))"
| "adjacent_scores_descend es = True"

subsection \<open>Rows instead of positions\<close>

text \<open>One turn of the scan's loop on a row, and the entry the report reads from a row.\<close>

definition better :: "row \<Rightarrow> best \<Rightarrow> best" where
  "better r b = (if pagerank r > bestScore b
                 then \<lparr>bestScore = pagerank r, bestVert = vertex r\<rparr> else b)"

definition entry_of :: "row \<Rightarrow> entry" where
  "entry_of r = (vertex r, pagerank r)"

section \<open>Properties\<close>

subsection \<open>The loop of the scan, row by row\<close>



lemma getitem_in_range: "i < length xs \<Longrightarrow> getitem xs i = Inr (xs ! i)"
  by (simp add: getitem_def)

lemma scan_body_in_range: "i < length df \<Longrightarrow> scan_body df i b = Inr (better (df ! i) b)"
  by (simp add: scan_body_def better_def col_def getitem_in_range)

lemma scan_loop_in_range:
  "\<forall>i\<in>set is. i < length df \<Longrightarrow>
   scan_loop df is b = Inr (fold better (map (\<lambda>i. df ! i) is) b)"
  by (induction "is" arbitrary: b) (simp_all add: scan_body_in_range)

lemma scan_loop_all_rows: "scan_loop df [0..<length df] b = Inr (fold better df b)"
  using scan_loop_in_range [of "[0..<length df]" df b] by (simp add: map_nth)

lemma inline_max_scan_Nil: "inline_max_scan [] = Inl IndexError"
  by (simp add: inline_max_scan_def getitem_def col_def)

lemma inline_max_scan_Cons:
  "inline_max_scan (r # rs) =
   Inr (fold better (r # rs) \<lparr>bestScore = pagerank r, bestVert = vertex r\<rparr>)"
  using scan_loop_all_rows [of "r # rs"]
  by (simp add: inline_max_scan_def getitem_def col_def del: upt_Suc fold_simps)

lemma fold_better_cases:
  "(fold better rows b = b \<and> (\<forall>r\<in>set rows. pagerank r \<le> bestScore b)) \<or>
   (\<exists>pre r post. rows = pre @ r # post \<and>
      fold better rows b = \<lparr>bestScore = pagerank r, bestVert = vertex r\<rparr> \<and>
      (\<forall>x\<in>set pre. pagerank x < pagerank r) \<and>
      (\<forall>x\<in>set post. pagerank x \<le> pagerank r) \<and>
      bestScore b < pagerank r)"
proof (induction rows arbitrary: b)
  case Nil
  show ?case by simp
next
  case (Cons r0 rows)
  let ?mk = "\<lambda>r. \<lparr>bestScore = pagerank r, bestVert = vertex r\<rparr>"
  show ?case
  proof (cases "pagerank r0 > bestScore b")
    case True
    then have step: "fold better (r0 # rows) b = fold better rows (?mk r0)"
      by (simp add: better_def)
    from Cons.IH [of "?mk r0"] show ?thesis
    proof (elim disjE exE conjE)
      assume same: "fold better rows (?mk r0) = ?mk r0"
        and le: "\<forall>r\<in>set rows. pagerank r \<le> bestScore (?mk r0)"
      have "r0 # rows = [] @ r0 # rows \<and> fold better (r0 # rows) b = ?mk r0 \<and>
            (\<forall>x\<in>set []. pagerank x < pagerank r0) \<and>
            (\<forall>x\<in>set rows. pagerank x \<le> pagerank r0) \<and> bestScore b < pagerank r0"
        using step same le True by simp
      then show ?thesis by blast
    next
      fix pre r post
      assume split: "rows = pre @ r # post"
        and res: "fold better rows (?mk r0) = ?mk r"
        and pre: "\<forall>x\<in>set pre. pagerank x < pagerank r"
        and post: "\<forall>x\<in>set post. pagerank x \<le> pagerank r"
        and lt: "bestScore (?mk r0) < pagerank r"
      have "r0 # rows = (r0 # pre) @ r # post \<and> fold better (r0 # rows) b = ?mk r \<and>
            (\<forall>x\<in>set (r0 # pre). pagerank x < pagerank r) \<and>
            (\<forall>x\<in>set post. pagerank x \<le> pagerank r) \<and> bestScore b < pagerank r"
        using split res pre post lt step True by simp
      then show ?thesis by blast
    qed
  next
    case False
    then have step: "fold better (r0 # rows) b = fold better rows b"
      by (simp add: better_def)
    from Cons.IH [of b] show ?thesis
    proof (elim disjE exE conjE)
      assume same: "fold better rows b = b"
        and le: "\<forall>r\<in>set rows. pagerank r \<le> bestScore b"
      then show ?thesis using step False by simp
    next
      fix pre r post
      assume split: "rows = pre @ r # post"
        and res: "fold better rows b = ?mk r"
        and pre: "\<forall>x\<in>set pre. pagerank x < pagerank r"
        and post: "\<forall>x\<in>set post. pagerank x \<le> pagerank r"
        and lt: "bestScore b < pagerank r"
      have "r0 # rows = (r0 # pre) @ r # post \<and> fold better (r0 # rows) b = ?mk r \<and>
            (\<forall>x\<in>set (r0 # pre). pagerank x < pagerank r) \<and>
            (\<forall>x\<in>set post. pagerank x \<le> pagerank r) \<and> bestScore b < pagerank r"
        using split res pre post lt step False by simp
      then show ?thesis by blast
    qed
  qed
qed

text \<open>The scan returns the fields of the earliest row that attains the greatest score.\<close>

lemma inline_max_scan_first_max:
  assumes "inline_max_scan df = Inr b"
  shows "\<exists>i<length df. pagerank (df ! i) = bestScore b \<and> vertex (df ! i) = bestVert b \<and>
           (\<forall>j<length df. pagerank (df ! j) \<le> bestScore b) \<and>
           (\<forall>j<i. pagerank (df ! j) < bestScore b)"
proof (cases df)
  case Nil
  with assms show ?thesis by (simp add: inline_max_scan_Nil)
next
  case (Cons r0 rs)
  let ?mk = "\<lambda>r. \<lparr>bestScore = pagerank r, bestVert = vertex r\<rparr>"
  from assms Cons have b: "b = fold better df (?mk r0)"
    by (simp only: inline_max_scan_Cons) simp
  from fold_better_cases [of df "?mk r0"] show ?thesis
  proof (elim disjE exE conjE)
    assume same: "fold better df (?mk r0) = ?mk r0"
      and le: "\<forall>r\<in>set df. pagerank r \<le> bestScore (?mk r0)"
    have b0: "b = ?mk r0"
      using same b by simp
    have all: "\<forall>j<length df. pagerank (df ! j) \<le> bestScore b"
      using le b0 by simp
    have "0 < length df \<and> pagerank (df ! 0) = bestScore b \<and> vertex (df ! 0) = bestVert b \<and>
          (\<forall>j<0. pagerank (df ! j) < bestScore b)"
      using b0 Cons by simp
    with all show ?thesis by blast
  next
    fix pre r post
    assume split: "df = pre @ r # post"
      and res: "fold better df (?mk r0) = ?mk r"
      and pre: "\<forall>x\<in>set pre. pagerank x < pagerank r"
      and post: "\<forall>x\<in>set post. pagerank x \<le> pagerank r"
    have br: "bestScore b = pagerank r" "bestVert b = vertex r"
      using b res by simp_all
    have all: "\<forall>x\<in>set df. pagerank x \<le> pagerank r"
      using split pre post by auto
    have allj: "\<forall>j<length df. pagerank (df ! j) \<le> bestScore b"
      using all br by simp
    have "length pre < length df \<and> pagerank (df ! length pre) = bestScore b \<and>
          vertex (df ! length pre) = bestVert b \<and>
          (\<forall>j<length pre. pagerank (df ! j) < bestScore b)"
      using split pre br by (simp add: nth_append)
    with allj show ?thesis by blast
  qed
qed

lemma inline_max_scan_attains_Max:
  assumes "inline_max_scan df = Inr b"
  shows "bestScore b = Max (set (col pagerank df))"
proof -
  from inline_max_scan_first_max [OF assms] obtain i where
    i: "i < length df" "pagerank (df ! i) = bestScore b"
    and le: "\<forall>j<length df. pagerank (df ! j) \<le> bestScore b"
    by blast
  have "Max (set (col pagerank df)) = bestScore b"
  proof (rule Max_eqI)
    show "finite (set (col pagerank df))" by simp
  next
    fix y assume "y \<in> set (col pagerank df)"
    then obtain j where "j < length df" "y = pagerank (df ! j)"
      by (auto simp: col_def in_set_conv_nth)
    with le show "y \<le> bestScore b" by simp
  next
    have "df ! i \<in> set df" using i(1) by (rule nth_mem)
    then have "pagerank (df ! i) \<in> set (col pagerank df)" by (simp add: col_def)
    with i(2) show "bestScore b \<in> set (col pagerank df)" by simp
  qed
  then show ?thesis by simp
qed

lemma inline_max_scan_total: "df \<noteq> [] \<Longrightarrow> \<exists>b. inline_max_scan df = Inr b"
  by (cases df) (simp_all only: inline_max_scan_Cons, simp_all)

subsection \<open>The sorted table\<close>

lemma head_sort_pr:
  assumes "df \<noteq> []"
  shows "getitem (col pagerank (sort_pr df)) 0 = Inr (Max (set (col pagerank df)))"
proof -
  let ?s = "sort_key (\<lambda>r. - pagerank r) df"
  have "length ?s = length df" by simp
  with assms have "?s \<noteq> []" by (metis length_0_conv)
  then obtain y ys where s: "?s = y # ys" by (cases ?s) auto
  have srt: "sorted (map (\<lambda>r. - pagerank r) ?s)" by (rule sorted_sort_key)
  have st: "set ?s = set df" by simp
  have top: "\<forall>r\<in>set df. pagerank r \<le> pagerank y"
    using srt st s by (auto simp: s)
  have mem: "y \<in> set df" using st s by auto
  have "Max (set (col pagerank df)) = pagerank y"
    using top mem by (intro Max_eqI) (auto simp: col_def)
  then show ?thesis
    by (simp add: sort_pr_def getitem_def col_def s)
qed

subsection \<open>The loop of the report\<close>

lemma report_loop_in_range:
  "\<forall>i\<in>set is. i < length f \<Longrightarrow>
   report_loop f is out = Inr (out @ map (\<lambda>i. entry_of (f ! i)) is)"
  by (induction "is" arbitrary: out) (simp_all add: getitem_in_range col_def entry_of_def)

lemma reporter_entries_filter:
  "reporter_entries df t = Inr (map entry_of (filter (\<lambda>r. t \<le> pagerank r) df))"
proof -
  let ?f = "filter (\<lambda>r. t \<le> pagerank r) df"
  have "map (\<lambda>i. entry_of (?f ! i)) [0..<length ?f]
        = map entry_of (map (\<lambda>i. ?f ! i) [0..<length ?f])"
    by simp
  also have "\<dots> = map entry_of ?f"
    by (simp only: map_nth)
  finally show ?thesis
    using report_loop_in_range [of "[0..<length ?f]" ?f "[]"]
    by (simp add: reporter_entries_def query_ge_def)
qed

lemma report_order_filter:
  "report_order (map entry_of df) \<Longrightarrow> report_order (map entry_of (filter P df))"
  unfolding report_order_def sorted_wrt_map by (rule sorted_wrt_filter)

lemma one_row_at_unique_max:
  assumes dist: "distinct (col vertex df)"
    and mx: "pr_max df = Some t"
    and uniq: "\<exists>!v. \<exists>r\<in>set df. vertex r = v \<and> pagerank r = t"
  shows "length (filter (\<lambda>r. t \<le> pagerank r) df) = 1"
proof -
  from mx have ne: "df \<noteq> []" and t: "t = Max (set (col pagerank df))"
    by (auto simp: pr_max_def series_max_def col_def split: if_splits)
  have le: "\<forall>r\<in>set df. pagerank r \<le> t"
    unfolding t by (auto simp: col_def)
  then have same: "filter (\<lambda>r. t \<le> pagerank r) df = filter (\<lambda>r. pagerank r = t) df"
    by (intro filter_cong) auto
  from dist have d: "distinct df" and inj: "inj_on vertex (set df)"
    by (simp_all add: col_def distinct_map)
  from uniq obtain r where r: "r \<in> set df" "pagerank r = t"
    by blast
  have "set (filter (\<lambda>r. pagerank r = t) df) = {r}"
  proof (intro equalityI subsetI)
    fix x assume "x \<in> set (filter (\<lambda>r. pagerank r = t) df)"
    then have x: "x \<in> set df" "pagerank x = t" by simp_all
    with r uniq have "vertex x = vertex r" by blast
    with inj x r have "x = r" by (auto dest: inj_onD)
    then show "x \<in> {r}" by simp
  next
    fix x assume "x \<in> {r}"
    with r show "x \<in> set (filter (\<lambda>r. pagerank r = t) df)" by simp
  qed
  moreover have "distinct (filter (\<lambda>r. pagerank r = t) df)"
    using d by simp
  ultimately have "length (filter (\<lambda>r. pagerank r = t) df) = card {r}"
    by (metis distinct_card)
  with same show ?thesis by simp
qed

section \<open>The claims\<close>

subsection \<open>The report: order and lines\<close>

text \<open>
  Claim C1 says that the report is ordered by descending score, ties by ascending vertex
  identifier, so that of two adjacent entries the earlier has a score at least the later's.
  \<open>print_pagerank_threshold\<close> filters and does not sort: on the table with the rows
  (1, 0.1) and (2, 0.2) and the default threshold 0 it reports vertex 1 before vertex 2.
\<close>

theorem reporter_not_sorted_counterexample:
  "reporter_entries [\<lparr>vertex = 1, pagerank = 1/10\<rparr>, \<lparr>vertex = 2, pagerank = 2/10\<rparr>] 0
     = Inr [(1, 1/10), (2, 2/10)]
   \<and> \<not> adjacent_scores_descend [(1, 1/10), (2, 2/10)]
   \<and> \<not> report_order [(1, 1/10), (2, 2/10)]"
  by (simp add: reporter_entries_filter entry_of_def report_order_def precedes_def)

text \<open>
  Claim C1, amended: for every score table and threshold the report holds exactly the
  entries with score at least the threshold, in the row order of the table; it is in
  descending score order, ties by ascending vertex identifier, whenever the rows of the
  table it is given are.
\<close>

theorem reporter_keeps_row_order:
  "reporter_entries df t = Inr (map entry_of (filter (\<lambda>r. t \<le> pagerank r) df)) \<and>
   (report_order (map entry_of df) \<longrightarrow>
      (\<exists>es. reporter_entries df t = Inr es \<and> report_order es))"
  by (simp add: reporter_entries_filter report_order_filter)

theorem reporter_keeps_row_order_witness:
  "report_order (map entry_of
     [\<lparr>vertex = 34, pagerank = 3/10\<rparr>, \<lparr>vertex = 1, pagerank = 2/10\<rparr>,
      \<lparr>vertex = 33, pagerank = 1/10\<rparr>]) \<and>
   reporter_entries
     [\<lparr>vertex = 34, pagerank = 3/10\<rparr>, \<lparr>vertex = 1, pagerank = 2/10\<rparr>,
      \<lparr>vertex = 33, pagerank = 1/10\<rparr>] (15/100)
     = Inr [(34, 3/10), (1, 2/10)] \<and>
   report_order [(34, 3/10), (1, 2/10)]"
  using reporter_keeps_row_order
    [of "[\<lparr>vertex = 34, pagerank = 3/10\<rparr>, \<lparr>vertex = 1, pagerank = 2/10\<rparr>,
          \<lparr>vertex = 33, pagerank = 1/10\<rparr>]" "15/100"]
  by (simp add: entry_of_def report_order_def precedes_def)

text \<open>
  Claim C3: for every score table and threshold the report never fails and prints exactly
  one line per row whose score is at or above the threshold, in the form
  \<open>Best vertex is <id> with score of <value>\<close>, and none for the other rows; when the
  threshold is the maximum of the score column and one vertex only attains it (the table
  holding each vertex once), exactly one line is printed.
\<close>

theorem print_pagerank_threshold_lines:
  "\<exists>lines. print_pagerank_threshold str_score df t = Inr lines \<and>
     lines = map (\<lambda>r. ''Best vertex is '' @ str_int (vertex r) @ '' with score of ''
                        @ str_score (pagerank r))
               (filter (\<lambda>r. t \<le> pagerank r) df) \<and>
     length lines = length (filter (\<lambda>r. t \<le> pagerank r) df) \<and>
     (distinct (col vertex df) \<and> pr_max df = Some t \<and>
      (\<exists>!v. \<exists>r\<in>set df. vertex r = v \<and> pagerank r = t) \<longrightarrow> length lines = 1)"
  by (simp add: print_pagerank_threshold_def reporter_entries_filter best_line_def
      entry_of_def comp_def one_row_at_unique_max)

theorem print_pagerank_threshold_lines_witness:
  "distinct (col vertex
     [\<lparr>vertex = 1, pagerank = 2/10\<rparr>, \<lparr>vertex = 34, pagerank = 3/10\<rparr>,
      \<lparr>vertex = 33, pagerank = 1/10\<rparr>]) \<and>
   pr_max
     [\<lparr>vertex = 1, pagerank = 2/10\<rparr>, \<lparr>vertex = 34, pagerank = 3/10\<rparr>,
      \<lparr>vertex = 33, pagerank = 1/10\<rparr>] = Some (3/10) \<and>
   (\<exists>!v. \<exists>r\<in>set [\<lparr>vertex = 1, pagerank = 2/10\<rparr>, \<lparr>vertex = 34, pagerank = 3/10\<rparr>,
      \<lparr>vertex = 33, pagerank = 1/10\<rparr>]. vertex r = v \<and> pagerank r = 3/10) \<and>
   print_pagerank_threshold (\<lambda>s. ''0.3'')
     [\<lparr>vertex = 1, pagerank = 2/10\<rparr>, \<lparr>vertex = 34, pagerank = 3/10\<rparr>,
      \<lparr>vertex = 33, pagerank = 1/10\<rparr>] (3/10)
     = Inr [''Best vertex is 34 with score of 0.3'']"
proof -
  let ?df = "[\<lparr>vertex = 1, pagerank = 2/10\<rparr>, \<lparr>vertex = 34, pagerank = 3/10\<rparr>,
      \<lparr>vertex = 33, pagerank = 1/10\<rparr>]"
  have d: "distinct (col vertex ?df)" by (simp add: col_def)
  have m: "pr_max ?df = Some (3/10)" by (simp add: pr_max_def series_max_def col_def)
  have u: "\<exists>!v. \<exists>r\<in>set ?df. vertex r = v \<and> pagerank r = 3/10" by auto
  from print_pagerank_threshold_lines [of "\<lambda>s. ''0.3''" ?df "3/10"]
  obtain lines where l: "print_pagerank_threshold (\<lambda>s. ''0.3'') ?df (3/10) = Inr lines"
    and f: "lines = map (\<lambda>r. ''Best vertex is '' @ str_int (vertex r) @ '' with score of '' @ ''0.3'')
               (filter (\<lambda>r. 3/10 \<le> pagerank r) ?df)"
    and one: "distinct (col vertex ?df) \<and> pr_max ?df = Some (3/10) \<and>
      (\<exists>!v. \<exists>r\<in>set ?df. vertex r = v \<and> pagerank r = 3/10) \<longrightarrow> length lines = 1"
    by blast
  from one d m u have "length lines = 1" by blast
  from f have "lines = [''Best vertex is 34 with score of 0.3'']"
    by (simp add: str_int_def digits.simps)
  with l d m u show ?thesis by blast
qed

subsection \<open>The inline max scan\<close>

text \<open>
  Claim C7: on every non-empty score table the inline max scan returns, and the
  \<open>bestScore\<close> it computes is the maximum of the score column: the value of \<open>pr_max\<close>
  and the score of the first row of \<open>sort_pr\<close>; \<open>bestVert\<close> is the vertex of a row that
  attains this maximum.
\<close>

theorem inline_max_scan_refines_pipeline:
  assumes "df \<noteq> []"
  shows "\<exists>b. inline_max_scan df = Inr b \<and>
           pr_max df = Some (bestScore b) \<and>
           getitem (col pagerank (sort_pr df)) 0 = Inr (bestScore b) \<and>
           (\<exists>r\<in>set df. vertex r = bestVert b \<and> pagerank r = bestScore b \<and>
                       pagerank r = Max (set (col pagerank df)))"
proof -
  from inline_max_scan_total [OF assms] obtain b where b: "inline_max_scan df = Inr b"
    by blast
  have mx: "bestScore b = Max (set (col pagerank df))"
    using b by (rule inline_max_scan_attains_Max)
  have p: "pr_max df = Some (bestScore b)"
    using assms mx by (simp add: pr_max_def series_max_def col_def)
  have s: "getitem (col pagerank (sort_pr df)) 0 = Inr (bestScore b)"
    using head_sort_pr [OF assms] mx by simp
  from inline_max_scan_first_max [OF b] obtain i where
    i: "i < length df" "pagerank (df ! i) = bestScore b" "vertex (df ! i) = bestVert b"
    by blast
  have "df ! i \<in> set df" using i(1) by (rule nth_mem)
  with i mx have "\<exists>r\<in>set df. vertex r = bestVert b \<and> pagerank r = bestScore b \<and>
                       pagerank r = Max (set (col pagerank df))"
    by auto
  with b p s show ?thesis by blast
qed

theorem inline_max_scan_refines_pipeline_witness:
  "[\<lparr>vertex = 1, pagerank = 2/10\<rparr>, \<lparr>vertex = 34, pagerank = 3/10\<rparr>,
    \<lparr>vertex = 33, pagerank = 1/10\<rparr>] \<noteq> [] \<and>
   inline_max_scan [\<lparr>vertex = 1, pagerank = 2/10\<rparr>, \<lparr>vertex = 34, pagerank = 3/10\<rparr>,
    \<lparr>vertex = 33, pagerank = 1/10\<rparr>] = Inr \<lparr>bestScore = 3/10, bestVert = 34\<rparr> \<and>
   pr_max [\<lparr>vertex = 1, pagerank = 2/10\<rparr>, \<lparr>vertex = 34, pagerank = 3/10\<rparr>,
    \<lparr>vertex = 33, pagerank = 1/10\<rparr>] = Some (3/10) \<and>
   getitem (col pagerank (sort_pr [\<lparr>vertex = 1, pagerank = 2/10\<rparr>,
    \<lparr>vertex = 34, pagerank = 3/10\<rparr>, \<lparr>vertex = 33, pagerank = 1/10\<rparr>])) 0 = Inr (3/10)"
proof -
  let ?df = "[\<lparr>vertex = 1, pagerank = 2/10\<rparr>, \<lparr>vertex = 34, pagerank = 3/10\<rparr>,
    \<lparr>vertex = 33, pagerank = 1/10\<rparr>]"
  have ne: "?df \<noteq> []" by simp
  have e: "inline_max_scan ?df = Inr \<lparr>bestScore = 3/10, bestVert = 34\<rparr>"
    by (simp add: inline_max_scan_Cons better_def)
  from inline_max_scan_refines_pipeline [OF ne] e
  have "pr_max ?df = Some (3/10) \<and> getitem (col pagerank (sort_pr ?df)) 0 = Inr (3/10)"
    by auto
  with ne e show ?thesis by blast
qed

text \<open>
  Claim C9: the scan reads row 0 before its loop. On the empty table both reads fail and
  the scan returns no best vertex; on every non-empty table both reads succeed, giving
  the fields of the first row, and the scan returns a result.
\<close>

theorem inline_max_scan_needs_row0:
  "(df = [] \<longrightarrow> getitem (col pagerank df) 0 = Inl IndexError \<and>
                 getitem (col vertex df) 0 = Inl IndexError \<and>
                 inline_max_scan df = Inl IndexError) \<and>
   (df \<noteq> [] \<longrightarrow> getitem (col pagerank df) 0 = Inr (pagerank (hd df)) \<and>
                 getitem (col vertex df) 0 = Inr (vertex (hd df)) \<and>
                 (\<exists>b. inline_max_scan df = Inr b))"
proof (cases df)
  case Nil
  then show ?thesis by (simp add: inline_max_scan_Nil getitem_def col_def)
next
  case (Cons r rs)
  then have "df \<noteq> []" by simp
  from inline_max_scan_total [OF this] Cons show ?thesis
    by (simp add: getitem_def col_def)
qed

theorem inline_max_scan_needs_row0_witness:
  "getitem (col pagerank []) 0 = Inl IndexError \<and>
   inline_max_scan [] = Inl IndexError \<and>
   [\<lparr>vertex = 7, pagerank = 1/2\<rparr>] \<noteq> [] \<and>
   getitem (col pagerank [\<lparr>vertex = 7, pagerank = 1/2\<rparr>]) 0 = Inr (1/2) \<and>
   getitem (col vertex [\<lparr>vertex = 7, pagerank = 1/2\<rparr>]) 0 = Inr 7 \<and>
   inline_max_scan [\<lparr>vertex = 7, pagerank = 1/2\<rparr>] = Inr \<lparr>bestScore = 1/2, bestVert = 7\<rparr>"
proof -
  have e: "inline_max_scan [\<lparr>vertex = 7, pagerank = 1/2\<rparr>] = Inr \<lparr>bestScore = 1/2, bestVert = 7\<rparr>"
    by (simp add: inline_max_scan_Cons better_def)
  from inline_max_scan_needs_row0 [of "[]"] inline_max_scan_needs_row0 [of "[\<lparr>vertex = 7, pagerank = 1/2\<rparr>]"] e
  show ?thesis by simp
qed

text \<open>
  Claim C10: on every non-empty score table the scan returns the vertex and score of the
  earliest row that attains the maximum score: the row it returns attains the maximum of
  the score column and every row before it has a strictly smaller score. It does not
  break ties by vertex identifier: when vertex 5 stands before vertex 2 with the same
  score, it returns vertex 5.
\<close>

theorem inline_max_scan_earliest_max:
  "(df \<noteq> [] \<longrightarrow>
      (\<exists>b i. inline_max_scan df = Inr b \<and> i < length df \<and>
         vertex (df ! i) = bestVert b \<and> pagerank (df ! i) = bestScore b \<and>
         bestScore b = Max (set (col pagerank df)) \<and>
         (\<forall>j<i. pagerank (df ! j) < Max (set (col pagerank df))))) \<and>
   inline_max_scan [\<lparr>vertex = 5, pagerank = 3/10\<rparr>, \<lparr>vertex = 2, pagerank = 3/10\<rparr>]
     = Inr \<lparr>bestScore = 3/10, bestVert = 5\<rparr>"
proof (intro conjI impI)
  assume ne: "df \<noteq> []"
  from inline_max_scan_total [OF ne] obtain b where b: "inline_max_scan df = Inr b"
    by blast
  have mx: "bestScore b = Max (set (col pagerank df))"
    using b by (rule inline_max_scan_attains_Max)
  from inline_max_scan_first_max [OF b] obtain i where
    "i < length df" "pagerank (df ! i) = bestScore b" "vertex (df ! i) = bestVert b"
    "\<forall>j<i. pagerank (df ! j) < bestScore b"
    by blast
  with mx b have "inline_max_scan df = Inr b \<and> i < length df \<and>
         vertex (df ! i) = bestVert b \<and> pagerank (df ! i) = bestScore b \<and>
         bestScore b = Max (set (col pagerank df)) \<and>
         (\<forall>j<i. pagerank (df ! j) < Max (set (col pagerank df)))"
    by simp
  then show "\<exists>b i. inline_max_scan df = Inr b \<and> i < length df \<and>
         vertex (df ! i) = bestVert b \<and> pagerank (df ! i) = bestScore b \<and>
         bestScore b = Max (set (col pagerank df)) \<and>
         (\<forall>j<i. pagerank (df ! j) < Max (set (col pagerank df)))"
    by blast
next
  show "inline_max_scan [\<lparr>vertex = 5, pagerank = 3/10\<rparr>, \<lparr>vertex = 2, pagerank = 3/10\<rparr>]
     = Inr \<lparr>bestScore = 3/10, bestVert = 5\<rparr>"
    by (simp add: inline_max_scan_Cons better_def)
qed

theorem inline_max_scan_earliest_max_witness:
  "[\<lparr>vertex = 7, pagerank = 1/10\<rparr>, \<lparr>vertex = 9, pagerank = 1/2\<rparr>,
      \<lparr>vertex = 3, pagerank = 1/2\<rparr>] \<noteq> [] \<and>
   (\<exists>b i. inline_max_scan [\<lparr>vertex = 7, pagerank = 1/10\<rparr>, \<lparr>vertex = 9, pagerank = 1/2\<rparr>,
      \<lparr>vertex = 3, pagerank = 1/2\<rparr>] = Inr b \<and> b = \<lparr>bestScore = 1/2, bestVert = 9\<rparr> \<and>
      i < length [\<lparr>vertex = 7, pagerank = 1/10\<rparr>, \<lparr>vertex = 9, pagerank = 1/2\<rparr>,
      \<lparr>vertex = 3, pagerank = 1/2\<rparr>] \<and>
      vertex ([\<lparr>vertex = 7, pagerank = 1/10\<rparr>, \<lparr>vertex = 9, pagerank = 1/2\<rparr>,
      \<lparr>vertex = 3, pagerank = 1/2\<rparr>] ! i) = bestVert b \<and>
      pagerank ([\<lparr>vertex = 7, pagerank = 1/10\<rparr>, \<lparr>vertex = 9, pagerank = 1/2\<rparr>,
      \<lparr>vertex = 3, pagerank = 1/2\<rparr>] ! i) = bestScore b \<and>
      bestScore b = Max (set (col pagerank [\<lparr>vertex = 7, pagerank = 1/10\<rparr>,
      \<lparr>vertex = 9, pagerank = 1/2\<rparr>, \<lparr>vertex = 3, pagerank = 1/2\<rparr>])))"
proof -
  let ?df = "[\<lparr>vertex = 7, pagerank = 1/10\<rparr>, \<lparr>vertex = 9, pagerank = 1/2\<rparr>,
      \<lparr>vertex = 3, pagerank = 1/2\<rparr>]"
  have ne: "?df \<noteq> []" by simp
  have e: "inline_max_scan ?df = Inr \<lparr>bestScore = 1/2, bestVert = 9\<rparr>"
    by (simp add: inline_max_scan_Cons better_def)
  from inline_max_scan_earliest_max [of ?df] ne obtain b i where
    r: "inline_max_scan ?df = Inr b" "i < length ?df" "vertex (?df ! i) = bestVert b"
       "pagerank (?df ! i) = bestScore b" "bestScore b = Max (set (col pagerank ?df))"
    by blast
  from r(1) e have "b = \<lparr>bestScore = 1/2, bestVert = 9\<rparr>" by simp
  with r ne show ?thesis by blast
qed

end
